theory Spec2Isabelle
  imports Main
begin

section \<open>The k-bucket contact store of drogulus (\<^verbatim>\<open>drogulus/dht/kbucket.py\<close>)\<close>

subsection \<open>Values held in a bucket\<close>

text \<open>
  Modelled from the spec: the Contact class (\<^verbatim>\<open>drogulus.contact\<close>) is not part of the
  source tree. The spec describes it as an opaque value with a node ID whose equality is
  by ID, both between two Contact values and between a Contact value and a bare
  identifier. A list element or a lookup target is therefore either a full contact (its ID
  and whatever else it carries) or a bare identifier, and Python's \<^verbatim>\<open>==\<close> on
  two such values is equality of their IDs.
\<close>

datatype ('i, 'a) entry = Contact 'i 'a | Ident 'i

fun ident :: "('i, 'a) entry \<Rightarrow> 'i" where
  "ident (Contact i d) = i"
| "ident (Ident i) = i"

definition py_eq :: "('i, 'a) entry \<Rightarrow> ('i, 'a) entry \<Rightarrow> bool" where
  "py_eq a b = (ident a = ident b)"

subsection \<open>Errors\<close>

text \<open>
  \<^verbatim>\<open>KBucketFull\<close> is the exception class of the module; \<^verbatim>\<open>ValueError\<close> is what
  \<^verbatim>\<open>list.index\<close> and \<^verbatim>\<open>list.remove\<close> raise for a value that is not in the list;
  \<^verbatim>\<open>IndexError\<close> is what indexing out of range raises.
\<close>

datatype error = KBucketFull | ValueError | IndexError

subsection \<open>The Python list primitives the bucket uses\<close>

text \<open>\<^verbatim>\<open>x in xs\<close>: some element of the list equals \<open>x\<close>.\<close>

fun py_contains :: "('i, 'a) entry \<Rightarrow> ('i, 'a) entry list \<Rightarrow> bool" where
  "py_contains x [] = False"
| "py_contains x (y # ys) = (if py_eq y x then True else py_contains x ys)"

text \<open>\<^verbatim>\<open>xs.index(x)\<close>: the position of the first element equal to \<open>x\<close>, or ValueError.\<close>

fun py_index :: "('i, 'a) entry \<Rightarrow> ('i, 'a) entry list \<Rightarrow> error + nat" where
  "py_index x [] = Inl ValueError"
| "py_index x (y # ys) =
     (if py_eq y x then Inr 0
      else (case py_index x ys of Inl e \<Rightarrow> Inl e | Inr i \<Rightarrow> Inr (Suc i)))"

text \<open>\<^verbatim>\<open>xs.remove(x)\<close>: the list without its first element equal to \<open>x\<close>, or ValueError.\<close>

fun py_remove :: "('i, 'a) entry \<Rightarrow> ('i, 'a) entry list \<Rightarrow> error + ('i, 'a) entry list" where
  "py_remove x [] = Inl ValueError"
| "py_remove x (y # ys) =
     (if py_eq y x then Inr ys
      else (case py_remove x ys of Inl e \<Rightarrow> Inl e | Inr zs \<Rightarrow> Inr (y # zs)))"

text \<open>\<^verbatim>\<open>xs[i]\<close> for an index that is not negative.\<close>

definition py_getitem :: "'e list \<Rightarrow> nat \<Rightarrow> error + 'e" where
  "py_getitem xs i = (if i < length xs then Inr (xs ! i) else Inl IndexError)"

text \<open>
  \<^verbatim>\<open>xs[:n]\<close>: a new list of the first \<open>n\<close> elements; a negative \<open>n\<close> counts from the end.
\<close>

definition py_slice_to :: "int \<Rightarrow> 'e list \<Rightarrow> 'e list" where
  "py_slice_to n xs =
     (if 0 \<le> n then take (nat n) xs else take (nat (int (length xs) + n)) xs)"

subsection \<open>The bucket\<close>

text \<open>
  The fields of \<^verbatim>\<open>KBucket\<close>; \<open>contacts\<close> is the attribute \<^verbatim>\<open>_contacts\<close>, least
  recently seen contact first.
\<close>

record ('i, 'a) kbucket =
  range_min :: int
  range_max :: int
  contacts :: "('i, 'a) entry list"
  last_accessed :: int

text \<open>\<^verbatim>\<open>KBucket.__init__(range_min, range_max)\<close>.\<close>

definition kbucket_init :: "int \<Rightarrow> int \<Rightarrow> ('i, 'a) kbucket" where
  "kbucket_init rmin rmax =
     \<lparr>range_min = rmin, range_max = rmax, contacts = [], last_accessed = 0\<rparr>"

text \<open>
  Every method is a function from the bucket before the call to the outcome of the call
  (\<open>Inl\<close> the exception raised, \<open>Inr\<close> the value returned) and the bucket after the call.
  The capacity \<^verbatim>\<open>K\<close> of \<^verbatim>\<open>drogulus.constants\<close> is not part of the source tree; it is a
  parameter, a natural number.
\<close>

definition add_contact ::
  "nat \<Rightarrow> ('i, 'a) entry \<Rightarrow> ('i, 'a) kbucket \<Rightarrow> (error + unit) \<times> ('i, 'a) kbucket" where
  "add_contact K contact self =
     (if py_contains contact (contacts self) then
        (case py_remove contact (contacts self) of
           Inl e \<Rightarrow> (Inl e, self)
         | Inr cs \<Rightarrow> (Inr (), self\<lparr>contacts := cs @ [contact]\<rparr>))
      else if length (contacts self) < K then
        (Inr (), self\<lparr>contacts := contacts self @ [contact]\<rparr>)
      else (Inl KBucketFull, self))"

definition get_contact ::
  "('i, 'a) entry \<Rightarrow> ('i, 'a) kbucket \<Rightarrow> (error + ('i, 'a) entry) \<times> ('i, 'a) kbucket" where
  "get_contact id' self =
     (case py_index id' (contacts self) of
        Inl e \<Rightarrow> (Inl e, self)
      | Inr index \<Rightarrow> (py_getitem (contacts self) index, self))"

text \<open>
  \<^verbatim>\<open>exclude_contact\<close> is \<open>None\<close> for Python's \<^verbatim>\<open>None\<close> (the default), which equals no
  element of the list. The slices are new lists, so removing the excluded contact from
  \<^verbatim>\<open>contact_list\<close> does not touch \<^verbatim>\<open>self._contacts\<close>.
\<close>

definition get_contacts ::
  "int \<Rightarrow> ('i, 'a) entry option \<Rightarrow> ('i, 'a) kbucket
     \<Rightarrow> (error + ('i, 'a) entry list) \<times> ('i, 'a) kbucket" where
  "get_contacts count exclude_contact self =
     (let current_len = int (length (contacts self));
          count = (if count \<le> 0 then current_len else count);
          contact_list =
            (if contacts self = [] then []
             else if current_len < count then py_slice_to current_len (contacts self)
             else py_slice_to count (contacts self))
      in (case exclude_contact of
            None \<Rightarrow> (Inr contact_list, self)
          | Some x \<Rightarrow>
              if py_contains x contact_list then
                (case py_remove x contact_list of
                   Inl e \<Rightarrow> (Inl e, self)
                 | Inr cl \<Rightarrow> (Inr cl, self))
              else (Inr contact_list, self)))"

definition remove_contact ::
  "('i, 'a) entry \<Rightarrow> ('i, 'a) kbucket \<Rightarrow> (error + unit) \<times> ('i, 'a) kbucket" where
  "remove_contact id' self =
     (case py_remove id' (contacts self) of
        Inl e \<Rightarrow> (Inl e, self)
      | Inr cs \<Rightarrow> (Inr (), self\<lparr>contacts := cs\<rparr>))"

text \<open>
  The key is a Python \<^verbatim>\<open>int\<close> or a \<^verbatim>\<open>str\<close>. \<^verbatim>\<open>hex_to_long\<close> of \<^verbatim>\<open>drogulus.utils\<close>
  is not part of the source tree; it is a parameter, a function that returns an integer
  or raises.
\<close>

datatype key = IntKey int | StrKey string

definition key_in_range ::
  "(string \<Rightarrow> error + int) \<Rightarrow> key \<Rightarrow> ('i, 'a) kbucket \<Rightarrow> (error + bool) \<times> ('i, 'a) kbucket" where
  "key_in_range hex_to_long key self =
     (case (case key of StrKey s \<Rightarrow> hex_to_long s | IntKey k \<Rightarrow> Inr k) of
        Inl e \<Rightarrow> (Inl e, self)
      | Inr k \<Rightarrow> (Inr (range_min self \<le> k \<and> k < range_max self), self))"

text \<open>\<^verbatim>\<open>KBucket.__len__\<close>.\<close>

definition kbucket_len :: "('i, 'a) kbucket \<Rightarrow> (error + nat) \<times> ('i, 'a) kbucket" where
  "kbucket_len self = (Inr (length (contacts self)), self)"

subsection \<open>The keyspace utility\<close>

text \<open>
  Modelled from the spec: \<^verbatim>\<open>hex_to_long\<close> (\<^verbatim>\<open>drogulus.utils\<close>) is not part of the
  source tree. The spec calls it a pure function converting an external hex-string
  identifier to the internal unsigned integer domain. This instance reads a non-empty
  string of hexadecimal digits, most significant digit first, and raises on anything
  else. The theorems below hold for every conversion function; this one instantiates them.
\<close>

definition hex_digit :: "char \<Rightarrow> nat option" where
  "hex_digit c = map_of (zip ''0123456789abcdef'' [0..<16]) c"

fun hex_value :: "int \<Rightarrow> string \<Rightarrow> error + int" where
  "hex_value acc [] = Inr acc"
| "hex_value acc (c # cs) =
     (case hex_digit c of
        None \<Rightarrow> Inl ValueError
      | Some d \<Rightarrow> hex_value (16 * acc + int d) cs)"

definition hex_to_long :: "string \<Rightarrow> error + int" where
  "hex_to_long raw = (if raw = [] then Inl ValueError else hex_value 0 raw)"

subsection \<open>Calls, and the buckets a caller can reach\<close>

text \<open>
  One value per public call with its arguments. \<open>after_call\<close> is the bucket a call
  leaves behind, whether it returned or raised; \<open>after_calls\<close> runs a sequence of calls,
  the caller carrying on after an exception.
\<close>

datatype ('i, 'a) call =
    AddContact "('i, 'a) entry"
  | GetContact "('i, 'a) entry"
  | GetContacts int "('i, 'a) entry option"
  | RemoveContact "('i, 'a) entry"
  | KeyInRange key
  | Len

fun after_call ::
  "nat \<Rightarrow> (string \<Rightarrow> error + int) \<Rightarrow> ('i, 'a) call \<Rightarrow> ('i, 'a) kbucket \<Rightarrow> ('i, 'a) kbucket" where
  "after_call K h (AddContact c) self = snd (add_contact K c self)"
| "after_call K h (GetContact t) self = snd (get_contact t self)"
| "after_call K h (GetContacts n x) self = snd (get_contacts n x self)"
| "after_call K h (RemoveContact t) self = snd (remove_contact t self)"
| "after_call K h (KeyInRange k) self = snd (key_in_range h k self)"
| "after_call K h Len self = snd (kbucket_len self)"

fun after_calls ::
  "nat \<Rightarrow> (string \<Rightarrow> error + int) \<Rightarrow> ('i, 'a) call list \<Rightarrow> ('i, 'a) kbucket \<Rightarrow> ('i, 'a) kbucket" where
  "after_calls K h [] self = self"
| "after_calls K h (c # cs) self = after_calls K h cs (after_call K h c self)"

subsection \<open>The invariants of the data model\<close>

definition unique_ids :: "('i, 'a) entry list \<Rightarrow> bool" where
  "unique_ids cs = distinct (map ident cs)"

definition kbucket_inv :: "nat \<Rightarrow> ('i, 'a) kbucket \<Rightarrow> bool" where
  "kbucket_inv K self = (length (contacts self) \<le> K \<and> unique_ids (contacts self))"

subsection \<open>The buckets of the spec's scenario\<close>

text \<open>
  Capacity 2 and the range \<open>[0, 2^512)\<close>; a contact carries its ID and an address.
\<close>

definition contact_A :: "(string, string) entry" where
  "contact_A = Contact ''A'' ''192.168.0.1''"

definition contact_B :: "(string, string) entry" where
  "contact_B = Contact ''B'' ''192.168.0.2''"

definition contact_C :: "(string, string) entry" where
  "contact_C = Contact ''C'' ''192.168.0.3''"

definition bucket_AB :: "(string, string) kbucket" where
  "bucket_AB = \<lparr>range_min = 0, range_max = 2 ^ 512,
                 contacts = [contact_A, contact_B], last_accessed = 0\<rparr>"

definition bucket_A :: "(string, string) kbucket" where
  "bucket_A = \<lparr>range_min = 0, range_max = 2 ^ 512,
                contacts = [contact_A], last_accessed = 0\<rparr>"

section \<open>Facts about the list primitives\<close>

lemma py_contains_iff: "py_contains x xs \<longleftrightarrow> ident x \<in> ident ` set xs"
  by (induction xs) (auto simp: py_eq_def)

lemma py_remove_absent: "ident x \<notin> ident ` set xs \<Longrightarrow> py_remove x xs = Inl ValueError"
  by (induction xs) (auto simp: py_eq_def)

lemma py_remove_Inl: "py_remove x xs = Inl e \<Longrightarrow> e = ValueError \<and> ident x \<notin> ident ` set xs"
  by (induction xs arbitrary: e) (auto simp: py_eq_def split: if_splits sum.splits)

lemma py_remove_Inr_length: "py_remove x xs = Inr ys \<Longrightarrow> Suc (length ys) = length xs"
  by (induction xs arbitrary: ys) (auto split: if_splits sum.splits)

lemma py_remove_Inr_split:
  "py_remove x xs = Inr ys \<Longrightarrow>
     \<exists>pre y post. xs = pre @ y # post \<and> ys = pre @ post \<and> ident y = ident x
        \<and> ident x \<notin> ident ` set pre"
proof (induction xs arbitrary: ys)
  case Nil
  then show ?case by simp
next
  case (Cons a xs)
  show ?case
  proof (cases "py_eq a x")
    case True
    with Cons.prems have "ys = xs" by simp
    with True have "a # xs = [] @ a # xs \<and> ys = [] @ xs \<and> ident a = ident x
        \<and> ident x \<notin> ident ` set []" by (simp add: py_eq_def)
    then show ?thesis by blast
  next
    case False
    with Cons.prems obtain zs where zs: "py_remove x xs = Inr zs" "ys = a # zs"
      by (auto split: sum.splits)
    from Cons.IH[OF zs(1)] obtain pre y post where
      "xs = pre @ y # post" "zs = pre @ post" "ident y = ident x" "ident x \<notin> ident ` set pre"
      by blast
    with False zs(2) have "a # xs = (a # pre) @ y # post \<and> ys = (a # pre) @ post \<and> ident y = ident x
        \<and> ident x \<notin> ident ` set (a # pre)" by (auto simp: py_eq_def)
    then show ?thesis by blast
  qed
qed

lemma py_remove_present:
  "ident x \<in> ident ` set xs \<Longrightarrow> \<exists>ys. py_remove x xs = Inr ys"
  by (induction xs) (auto simp: py_eq_def split: sum.splits)

lemma py_remove_Inr_filter:
  "py_remove x xs = Inr ys \<Longrightarrow>
     filter (\<lambda>y. ident y \<noteq> ident x) ys = filter (\<lambda>y. ident y \<noteq> ident x) xs"
  by (induction xs arbitrary: ys) (auto simp: py_eq_def split: if_splits sum.splits)

lemma py_remove_Inr_distinct:
  "py_remove x xs = Inr ys \<Longrightarrow> distinct (map ident xs) \<Longrightarrow>
     ys = filter (\<lambda>y. ident y \<noteq> ident x) xs"
proof (induction xs arbitrary: ys)
  case Nil
  then show ?case by simp
next
  case (Cons a xs)
  show ?case
  proof (cases "py_eq a x")
    case True
    with Cons.prems have "ys = xs" "ident x \<notin> ident ` set xs" by (auto simp: py_eq_def)
    moreover from this(2) have "filter (\<lambda>y. ident y \<noteq> ident x) xs = xs"
      by (intro filter_True ballI) (metis imageI)
    ultimately show ?thesis using True by (simp add: py_eq_def)
  next
    case False
    with Cons show ?thesis by (auto simp: py_eq_def split: sum.splits)
  qed
qed

lemma py_index_absent: "ident x \<notin> ident ` set xs \<Longrightarrow> py_index x xs = Inl ValueError"
  by (induction xs) (auto simp: py_eq_def)

lemma py_index_Inr:
  "py_index x xs = Inr i \<Longrightarrow> i < length xs \<and> ident (xs ! i) = ident x
     \<and> (\<forall>j<i. ident (xs ! j) \<noteq> ident x)"
proof (induction xs arbitrary: i)
  case Nil
  then show ?case by simp
next
  case (Cons a xs)
  show ?case
  proof (cases "py_eq a x")
    case True
    with Cons.prems show ?thesis by (simp add: py_eq_def)
  next
    case False
    with Cons.prems obtain k where k: "py_index x xs = Inr k" "i = Suc k"
      by (auto split: sum.splits)
    from Cons.IH[OF k(1)] False k(2) show ?thesis
      by (auto simp: py_eq_def less_Suc_eq_0_disj)
  qed
qed

lemma py_index_present: "ident x \<in> ident ` set xs \<Longrightarrow> \<exists>i. py_index x xs = Inr i"
  by (induction xs) (auto simp: py_eq_def split: sum.splits)

section \<open>What no call changes\<close>

lemma get_contact_snd: "snd (get_contact t self) = self"
  by (simp add: get_contact_def split: sum.splits)

lemma get_contacts_snd: "snd (get_contacts n x self) = self"
  by (simp add: get_contacts_def Let_def split: option.splits sum.splits)

lemma key_in_range_snd: "snd (key_in_range h k self) = self"
  by (simp add: key_in_range_def split: sum.splits)

lemma kbucket_len_snd: "snd (kbucket_len self) = self"
  by (simp add: kbucket_len_def)

section \<open>Claims about \<open>add_contact\<close>\<close>

text \<open>
  C1. A bucket whose size equals \<open>K\<close> refuses a contact whose ID is not stored:
  \<open>add_contact\<close> raises \<^verbatim>\<open>KBucketFull\<close> (the spec's Full condition) and the bucket after
  the call is the bucket before it, in every field: same contacts, same order, same size.
\<close>

theorem add_contact_full:
  assumes "length (contacts self) = K"
    and "ident contact \<notin> ident ` set (contacts self)"
  shows "add_contact K contact self = (Inl KBucketFull, self)"
  using assms by (simp add: add_contact_def py_contains_iff)

theorem add_contact_full_witness:
  "length (contacts bucket_AB) = 2
   \<and> ident contact_C \<notin> ident ` set (contacts bucket_AB)
   \<and> add_contact 2 contact_C bucket_AB = (Inl KBucketFull, bucket_AB)
   \<and> contacts (snd (add_contact 2 contact_C bucket_AB)) = [contact_A, contact_B]"
proof -
  have len: "length (contacts bucket_AB) = 2"
    by (simp add: bucket_AB_def)
  have new: "ident contact_C \<notin> ident ` set (contacts bucket_AB)"
    by (simp add: bucket_AB_def contact_A_def contact_B_def contact_C_def)
  from add_contact_full [OF len new] len new show ?thesis
    by (simp add: bucket_AB_def)
qed

text \<open>
  C3. When the bucket already holds an element with the ID of \<open>c\<close>, \<open>add_contact\<close>
  returns normally for every capacity \<open>K\<close> and every size (a full bucket included). Only
  the contact list changes and its length stays the same: the first element with that ID
  leaves its position and \<open>c\<close> is appended at the tail. The elements with other IDs keep
  their relative order, and in a bucket with unique IDs the new list is exactly the other
  elements, in their old order, followed by \<open>c\<close>.
\<close>

theorem add_contact_present:
  assumes "ident c \<in> ident ` set (contacts self)"
  shows "fst (add_contact K c self) = Inr ()
    \<and> snd (add_contact K c self) = self\<lparr>contacts := contacts (snd (add_contact K c self))\<rparr>
    \<and> length (contacts (snd (add_contact K c self))) = length (contacts self)
    \<and> (\<exists>pre x post. contacts self = pre @ x # post \<and> ident x = ident c
          \<and> ident c \<notin> ident ` set pre
          \<and> contacts (snd (add_contact K c self)) = pre @ post @ [c])
    \<and> filter (\<lambda>x. ident x \<noteq> ident c) (contacts (snd (add_contact K c self)))
        = filter (\<lambda>x. ident x \<noteq> ident c) (contacts self)
    \<and> (unique_ids (contacts self) \<longrightarrow>
          contacts (snd (add_contact K c self))
            = filter (\<lambda>x. ident x \<noteq> ident c) (contacts self) @ [c])"
proof -
  from py_remove_present [OF assms] obtain ys where ys: "py_remove c (contacts self) = Inr ys"
    by blast
  with assms have res: "add_contact K c self = (Inr (), self\<lparr>contacts := ys @ [c]\<rparr>)"
    by (simp add: add_contact_def py_contains_iff)
  from py_remove_Inr_split [OF ys] obtain pre x post where
    sp: "contacts self = pre @ x # post" "ys = pre @ post" "ident x = ident c"
        "ident c \<notin> ident ` set pre"
    by blast
  have 1: "fst (add_contact K c self) = Inr ()"
    using res by simp
  have 2: "snd (add_contact K c self) = self\<lparr>contacts := contacts (snd (add_contact K c self))\<rparr>"
    using res by simp
  have 3: "length (contacts (snd (add_contact K c self))) = length (contacts self)"
    using res py_remove_Inr_length [OF ys] by simp
  have 4: "\<exists>pre x post. contacts self = pre @ x # post \<and> ident x = ident c
          \<and> ident c \<notin> ident ` set pre
          \<and> contacts (snd (add_contact K c self)) = pre @ post @ [c]"
    using res sp by auto
  have 5: "filter (\<lambda>x. ident x \<noteq> ident c) (contacts (snd (add_contact K c self)))
        = filter (\<lambda>x. ident x \<noteq> ident c) (contacts self)"
    using res py_remove_Inr_filter [OF ys] by simp
  have 6: "unique_ids (contacts self) \<longrightarrow>
          contacts (snd (add_contact K c self))
            = filter (\<lambda>x. ident x \<noteq> ident c) (contacts self) @ [c]"
    using res py_remove_Inr_distinct [OF ys] by (simp add: unique_ids_def)
  from 1 2 3 4 5 6 show ?thesis by blast
qed

theorem add_contact_present_witness:
  "ident (Contact ''A'' ''10.0.0.7'') \<in> ident ` set (contacts bucket_AB)
   \<and> length (contacts bucket_AB) = 2
   \<and> unique_ids (contacts bucket_AB)
   \<and> fst (add_contact 2 (Contact ''A'' ''10.0.0.7'') bucket_AB) = Inr ()
   \<and> contacts (snd (add_contact 2 (Contact ''A'' ''10.0.0.7'') bucket_AB))
       = [contact_B, Contact ''A'' ''10.0.0.7'']"
proof -
  have pres: "ident (Contact ''A'' ''10.0.0.7'') \<in> ident ` set (contacts bucket_AB)"
    by (simp add: bucket_AB_def contact_A_def)
  have uniq: "unique_ids (contacts bucket_AB)"
    by (simp add: bucket_AB_def unique_ids_def contact_A_def contact_B_def)
  have flt: "filter (\<lambda>x. ident x \<noteq> ident (Contact ''A'' ''10.0.0.7'' :: (string, string) entry))
               (contacts bucket_AB) = [contact_B]"
    by (simp add: bucket_AB_def contact_A_def contact_B_def)
  from add_contact_present [OF pres, of 2] uniq flt pres show ?thesis
    by (simp add: bucket_AB_def)
qed

text \<open>
  C4. In a bucket with fewer than \<open>K\<close> contacts, \<open>add_contact\<close> of a contact whose ID
  is not stored returns normally, appends the contact at the tail of the unchanged list and
  so makes the bucket one element longer.
\<close>

theorem add_contact_new:
  assumes "length (contacts self) < K"
    and "ident new \<notin> ident ` set (contacts self)"
  shows "add_contact K new self = (Inr (), self\<lparr>contacts := contacts self @ [new]\<rparr>)
    \<and> length (contacts (snd (add_contact K new self))) = length (contacts self) + 1"
  using assms by (simp add: add_contact_def py_contains_iff)

theorem add_contact_new_witness:
  "length (contacts bucket_A) < 2
   \<and> ident contact_B \<notin> ident ` set (contacts bucket_A)
   \<and> add_contact 2 contact_B bucket_A = (Inr (), bucket_AB)"
proof -
  have len: "length (contacts bucket_A) < 2"
    by (simp add: bucket_A_def)
  have new: "ident contact_B \<notin> ident ` set (contacts bucket_A)"
    by (simp add: bucket_A_def contact_A_def contact_B_def)
  from add_contact_new [OF len new] len new show ?thesis
    by (simp add: bucket_A_def bucket_AB_def)
qed

lemma add_contact_twice:
  assumes "unique_ids (contacts s)"
    and "add_contact K c s = (Inr (), s')"
  shows "add_contact K c s' = (Inr (), s')"
proof -
  have "\<exists>xs. contacts s' = xs @ [c] \<and> ident c \<notin> ident ` set xs \<and> s' = s\<lparr>contacts := xs @ [c]\<rparr>"
  proof (cases "ident c \<in> ident ` set (contacts s)")
    case True
    from py_remove_present [OF True] obtain ys where ys: "py_remove c (contacts s) = Inr ys"
      by blast
    from py_remove_Inr_distinct [OF ys] assms(1)
    have "ys = filter (\<lambda>y. ident y \<noteq> ident c) (contacts s)"
      by (simp add: unique_ids_def)
    then have "ident c \<notin> ident ` set ys" by auto
    with True ys assms(2) show ?thesis
      by (auto simp: add_contact_def py_contains_iff)
  next
    case False
    with assms(2) show ?thesis
      by (auto simp: add_contact_def py_contains_iff split: if_splits)
  qed
  then obtain xs where xs: "contacts s' = xs @ [c]" "ident c \<notin> ident ` set xs"
    "s' = s\<lparr>contacts := xs @ [c]\<rparr>" by blast
  have rem: "py_remove c (xs @ [c]) = Inr xs"
    using xs(2) by (induction xs) (auto simp: py_eq_def)
  have "py_contains c (contacts s')"
    using xs(1) by (simp add: py_contains_iff)
  with rem xs show ?thesis
    by (simp add: add_contact_def)
qed

lemma unique_ids_init: "unique_ids (contacts (kbucket_init rmin rmax))"
  by (simp add: kbucket_init_def unique_ids_def)

lemma unique_ids_add_contact:
  assumes "unique_ids (contacts self)"
  shows "unique_ids (contacts (snd (add_contact K c self)))"
proof (cases "py_contains c (contacts self)")
  case True
  then have "ident c \<in> ident ` set (contacts self)"
    by (simp add: py_contains_iff)
  from py_remove_present [OF this] obtain ys where ys: "py_remove c (contacts self) = Inr ys"
    by blast
  from py_remove_Inr_distinct [OF ys] assms
  have "ys = filter (\<lambda>y. ident y \<noteq> ident c) (contacts self)"
    by (simp add: unique_ids_def)
  with assms True ys show ?thesis
    by (auto simp: add_contact_def unique_ids_def distinct_map_filter)
next
  case False
  with assms show ?thesis
    by (auto simp: add_contact_def unique_ids_def py_contains_iff)
qed

lemma unique_ids_remove_contact:
  assumes "unique_ids (contacts self)"
  shows "unique_ids (contacts (snd (remove_contact t self)))"
proof (cases "py_remove t (contacts self)")
  case (Inl e)
  with assms show ?thesis by (simp add: remove_contact_def)
next
  case (Inr ys)
  from py_remove_Inr_distinct [OF Inr] assms
  have "ys = filter (\<lambda>y. ident y \<noteq> ident t) (contacts self)"
    by (simp add: unique_ids_def)
  with assms Inr show ?thesis
    by (auto simp: remove_contact_def unique_ids_def distinct_map_filter)
qed

lemma unique_ids_after_call:
  "unique_ids (contacts self) \<Longrightarrow> unique_ids (contacts (after_call K h c self))"
  by (cases c)
    (simp_all add: unique_ids_add_contact unique_ids_remove_contact get_contact_snd
      get_contacts_snd key_in_range_snd kbucket_len_snd)

lemma unique_ids_after_calls:
  "unique_ids (contacts self) \<Longrightarrow> unique_ids (contacts (after_calls K h cs self))"
  by (induction cs arbitrary: self) (simp_all add: unique_ids_after_call)

text \<open>
  C10. In a bucket with unique IDs, a call of \<open>add_contact\<close> that returned normally can be
  repeated at once with the same contact: the second call returns normally too and leaves
  the bucket exactly as the first call left it. Every bucket that a sequence of calls
  makes of a new bucket has unique IDs, so this holds for every bucket a caller can reach.
\<close>

theorem add_contact_idempotent:
  "(unique_ids (contacts s) \<and> add_contact K c s = (Inr (), s')
      \<longrightarrow> add_contact K c s' = (Inr (), s'))
   \<and> (add_contact K c (after_calls K h cs (kbucket_init rmin rmax)) = (Inr (), r')
      \<longrightarrow> add_contact K c r' = (Inr (), r'))"
proof -
  have "unique_ids (contacts (after_calls K h cs (kbucket_init rmin rmax)))"
    by (rule unique_ids_after_calls) (rule unique_ids_init)
  then show ?thesis
    using add_contact_twice by blast
qed

theorem add_contact_idempotent_witness:
  "unique_ids (contacts bucket_AB)
   \<and> after_calls 2 hex_to_long [AddContact contact_A, AddContact contact_B]
        (kbucket_init 0 (2 ^ 512)) = bucket_AB
   \<and> add_contact 2 contact_A bucket_AB
       = (Inr (), bucket_AB\<lparr>contacts := [contact_B, contact_A]\<rparr>)
   \<and> add_contact 2 contact_A (bucket_AB\<lparr>contacts := [contact_B, contact_A]\<rparr>)
       = (Inr (), bucket_AB\<lparr>contacts := [contact_B, contact_A]\<rparr>)"
proof -
  have uniq: "unique_ids (contacts bucket_AB)"
    by (simp add: bucket_AB_def unique_ids_def contact_A_def contact_B_def)
  have run: "after_calls 2 hex_to_long [AddContact contact_A, AddContact contact_B]
        (kbucket_init 0 (2 ^ 512)) = bucket_AB"
    by (simp add: add_contact_def kbucket_init_def bucket_AB_def py_eq_def
        contact_A_def contact_B_def)
  have first: "add_contact 2 contact_A bucket_AB
       = (Inr (), bucket_AB\<lparr>contacts := [contact_B, contact_A]\<rparr>)"
    by (simp add: add_contact_def bucket_AB_def py_eq_def contact_A_def contact_B_def)
  have again: "add_contact 2 contact_A (bucket_AB\<lparr>contacts := [contact_B, contact_A]\<rparr>)
       = (Inr (), bucket_AB\<lparr>contacts := [contact_B, contact_A]\<rparr>)"
    using add_contact_idempotent [of bucket_AB 2 contact_A
      "bucket_AB\<lparr>contacts := [contact_B, contact_A]\<rparr>" hex_to_long
      "[AddContact contact_A, AddContact contact_B]" 0 "2 ^ 512"
      "bucket_AB\<lparr>contacts := [contact_B, contact_A]\<rparr>"] uniq first
    unfolding run by blast
  from uniq run first again show ?thesis by blast
qed

section \<open>Claims about lookup and removal\<close>

text \<open>
  C7. For an identifier that matches no stored element, \<open>get_contact\<close> and
  \<open>remove_contact\<close> raise \<^verbatim>\<open>ValueError\<close> (the spec's NotFound condition) and leave the
  bucket as it was. Whenever \<open>remove_contact\<close> returns normally the identifier was stored
  and the bucket has exactly one element fewer; whenever it raises, the bucket is unchanged.
\<close>

theorem absent_not_found:
  "(ident t \<notin> ident ` set (contacts self) \<longrightarrow>
       get_contact t self = (Inl ValueError, self)
     \<and> remove_contact t self = (Inl ValueError, self))
   \<and> (fst (remove_contact t self) = Inr () \<longrightarrow>
       ident t \<in> ident ` set (contacts self)
     \<and> length (contacts (snd (remove_contact t self))) + 1 = length (contacts self))
   \<and> (fst (remove_contact t self) \<noteq> Inr () \<longrightarrow> snd (remove_contact t self) = self)"
proof -
  have a: "get_contact t self = (Inl ValueError, self)
     \<and> remove_contact t self = (Inl ValueError, self)"
    if "ident t \<notin> ident ` set (contacts self)"
    using that by (simp add: get_contact_def remove_contact_def py_index_absent py_remove_absent)
  have b: "ident t \<in> ident ` set (contacts self)
     \<and> length (contacts (snd (remove_contact t self))) + 1 = length (contacts self)"
    if "fst (remove_contact t self) = Inr ()"
  proof (cases "py_remove t (contacts self)")
    case (Inl e)
    with that show ?thesis by (simp add: remove_contact_def)
  next
    case (Inr ys)
    from py_remove_Inr_split [OF Inr] have "ident t \<in> ident ` set (contacts self)"
      by force
    with py_remove_Inr_length [OF Inr] Inr show ?thesis
      by (simp add: remove_contact_def)
  qed
  have c: "snd (remove_contact t self) = self" if "fst (remove_contact t self) \<noteq> Inr ()"
    using that by (cases "py_remove t (contacts self)") (simp_all add: remove_contact_def)
  from a b c show ?thesis by blast
qed

theorem absent_not_found_witness:
  "ident (Ident ''C'' :: (string, string) entry) \<notin> ident ` set (contacts bucket_AB)
   \<and> get_contact (Ident ''C'') bucket_AB = (Inl ValueError, bucket_AB)
   \<and> remove_contact (Ident ''C'') bucket_AB = (Inl ValueError, bucket_AB)
   \<and> fst (remove_contact (Ident ''B'') bucket_AB) = Inr ()
   \<and> length (contacts (snd (remove_contact (Ident ''B'') bucket_AB))) + 1
       = length (contacts bucket_AB)
   \<and> fst (remove_contact (Ident ''C'') bucket_AB) \<noteq> Inr ()
   \<and> snd (remove_contact (Ident ''C'') bucket_AB) = bucket_AB"
proof -
  have absent: "ident (Ident ''C'' :: (string, string) entry) \<notin> ident ` set (contacts bucket_AB)"
    by (simp add: bucket_AB_def contact_A_def contact_B_def)
  have removed: "fst (remove_contact (Ident ''B'') bucket_AB) = Inr ()"
    by (simp add: remove_contact_def bucket_AB_def py_eq_def contact_A_def contact_B_def)
  from absent_not_found [of "Ident ''C''" bucket_AB] absent_not_found [of "Ident ''B''" bucket_AB]
    absent removed
  show ?thesis by simp
qed

section \<open>The invariants\<close>

lemma py_remove_Inr_unique:
  assumes "py_remove x xs = Inr ys" and "unique_ids xs"
  shows "unique_ids ys \<and> ident x \<notin> ident ` set ys"
proof -
  from py_remove_Inr_distinct [OF assms(1)] assms(2)
  have "ys = filter (\<lambda>y. ident y \<noteq> ident x) xs"
    by (simp add: unique_ids_def)
  with assms(2) show ?thesis
    by (auto simp: unique_ids_def distinct_map_filter)
qed

lemma add_contact_inv:
  assumes "kbucket_inv K self"
  shows "kbucket_inv K (snd (add_contact K c self))"
proof (cases "py_contains c (contacts self)")
  case True
  then have "ident c \<in> ident ` set (contacts self)"
    by (simp add: py_contains_iff)
  from py_remove_present [OF this] obtain ys where ys: "py_remove c (contacts self) = Inr ys"
    by blast
  from py_remove_Inr_unique [OF ys] py_remove_Inr_length [OF ys] assms True ys
  show ?thesis
    by (auto simp: add_contact_def kbucket_inv_def unique_ids_def)
next
  case False
  with assms show ?thesis
    by (auto simp: add_contact_def kbucket_inv_def unique_ids_def py_contains_iff)
qed

lemma remove_contact_inv:
  assumes "kbucket_inv K self"
  shows "kbucket_inv K (snd (remove_contact t self))"
proof (cases "py_remove t (contacts self)")
  case (Inl e)
  with assms show ?thesis by (simp add: remove_contact_def)
next
  case (Inr ys)
  from py_remove_Inr_unique [OF Inr] py_remove_Inr_length [OF Inr] assms Inr
  show ?thesis
    by (auto simp: remove_contact_def kbucket_inv_def)
qed

lemma after_call_inv: "kbucket_inv K self \<Longrightarrow> kbucket_inv K (after_call K h c self)"
  by (cases c)
    (simp_all add: add_contact_inv remove_contact_inv get_contact_snd get_contacts_snd
      key_in_range_snd kbucket_len_snd)

lemma after_calls_inv: "kbucket_inv K self \<Longrightarrow> kbucket_inv K (after_calls K h cs self)"
  by (induction cs arbitrary: self) (simp_all add: after_call_inv)

lemma kbucket_init_inv: "kbucket_inv K (kbucket_init rmin rmax)"
  by (simp add: kbucket_inv_def kbucket_init_def unique_ids_def)

text \<open>
  C2. The size bound \<open>length contacts \<le> K\<close> and the uniqueness of IDs hold for the
  bucket the constructor returns, are kept by every call (\<open>add_contact\<close>,
  \<open>get_contact\<close>, \<open>get_contacts\<close>, \<open>remove_contact\<close>, \<open>key_in_range\<close>, the length),
  whether it returns or raises, and so hold after every sequence of calls on a new bucket.
\<close>

theorem kbucket_inv_preserved:
  "kbucket_inv K (kbucket_init rmin rmax)
   \<and> (kbucket_inv K self \<longrightarrow> kbucket_inv K (after_call K h c self))
   \<and> kbucket_inv K (after_calls K h cs (kbucket_init rmin rmax))"
  by (simp add: kbucket_init_inv after_call_inv after_calls_inv)

theorem kbucket_inv_preserved_witness:
  "kbucket_inv 2 bucket_AB
   \<and> kbucket_inv 2 (after_call 2 hex_to_long (AddContact contact_C) bucket_AB)
   \<and> kbucket_inv 2 (after_call 2 hex_to_long (AddContact contact_A) bucket_AB)
   \<and> kbucket_inv 2 (after_call 2 hex_to_long (RemoveContact (Ident ''A'')) bucket_AB)
   \<and> after_calls 2 hex_to_long [AddContact contact_A, AddContact contact_B]
        (kbucket_init 0 (2 ^ 512)) = bucket_AB"
proof -
  have inv: "kbucket_inv 2 bucket_AB"
    by (simp add: kbucket_inv_def unique_ids_def bucket_AB_def contact_A_def contact_B_def)
  have run: "after_calls 2 hex_to_long [AddContact contact_A, AddContact contact_B]
        (kbucket_init 0 (2 ^ 512)) = bucket_AB"
    by (simp add: add_contact_def kbucket_init_def bucket_AB_def py_eq_def
        contact_A_def contact_B_def)
  have step: "kbucket_inv 2 (after_call 2 hex_to_long c bucket_AB)" for c
    using kbucket_inv_preserved [of 2 0 0 bucket_AB hex_to_long c "[]"] inv by blast
  from inv run step show ?thesis by blast
qed

section \<open>The field \<open>last_accessed\<close>\<close>

lemma add_contact_last_accessed: "last_accessed (snd (add_contact K c self)) = last_accessed self"
  by (simp add: add_contact_def split: sum.splits)

lemma remove_contact_last_accessed:
  "last_accessed (snd (remove_contact t self)) = last_accessed self"
  by (simp add: remove_contact_def split: sum.splits)

lemma after_call_last_accessed: "last_accessed (after_call K h c self) = last_accessed self"
  by (cases c)
    (simp_all add: add_contact_last_accessed remove_contact_last_accessed get_contact_snd
      get_contacts_snd key_in_range_snd kbucket_len_snd)

lemma after_calls_last_accessed: "last_accessed (after_calls K h cs self) = last_accessed self"
  by (induction cs arbitrary: self) (simp_all add: after_call_last_accessed)

text \<open>
  C9. The constructor sets \<open>last_accessed\<close> to 0 and no call writes it, whether the call
  returns or raises: after every sequence of calls on a new bucket the field is still 0.
\<close>

theorem last_accessed_never_written:
  "last_accessed (kbucket_init rmin rmax) = 0
   \<and> last_accessed (after_call K h c self) = last_accessed self
   \<and> last_accessed (after_calls K h cs (kbucket_init rmin rmax)) = 0"
  by (simp add: after_call_last_accessed after_calls_last_accessed) (simp add: kbucket_init_def)

section \<open>Claims about \<open>key_in_range\<close>\<close>

text \<open>
  C6, as amended. For an integer key \<open>key_in_range\<close> returns whether
  \<open>range_min \<le> key < range_max\<close> and leaves the bucket alone. The upper bound is never in
  range. The lower bound is in range exactly when the range is not empty, that is when
  \<open>range_min < range_max\<close>; the constructor accepts any two bounds.
\<close>

theorem key_in_range_bounds:
  "key_in_range h (IntKey k) self = (Inr (range_min self \<le> k \<and> k < range_max self), self)
   \<and> fst (key_in_range h (IntKey (range_max self)) self) = Inr False
   \<and> (fst (key_in_range h (IntKey (range_min self)) self) = Inr True
        \<longleftrightarrow> range_min self < range_max self)"
  by (simp add: key_in_range_def)

theorem key_in_range_bounds_witness:
  "key_in_range hex_to_long (IntKey 7) bucket_AB = (Inr True, bucket_AB)
   \<and> fst (key_in_range hex_to_long (IntKey (2 ^ 512)) bucket_AB) = Inr False
   \<and> fst (key_in_range hex_to_long (IntKey 0) bucket_AB) = Inr True
   \<and> range_min bucket_AB < range_max bucket_AB"
  using key_in_range_bounds [of hex_to_long 7 bucket_AB]
  by (simp add: bucket_AB_def)

text \<open>
  The claim as it was written, that the lower bound of every bucket is in range, fails
  for the bucket \<^verbatim>\<open>KBucket(5, 5)\<close>: 5 is not in its range.
\<close>

theorem key_in_range_empty_range_counterexample:
  "fst (key_in_range hex_to_long (IntKey (range_min (kbucket_init 5 5 :: (string, string) kbucket)))
          (kbucket_init 5 5 :: (string, string) kbucket)) = Inr False"
  by (simp add: key_in_range_def kbucket_init_def)



section \<open>Claims about \<open>get_contacts\<close>\<close>

lemma get_contacts_slice:
  "(if contacts self = [] then []
    else if int (length (contacts self))
              < (if count \<le> 0 then int (length (contacts self)) else count)
      then py_slice_to (int (length (contacts self))) (contacts self)
    else py_slice_to (if count \<le> 0 then int (length (contacts self)) else count)
           (contacts self))
   = take (if count \<le> 0 then length (contacts self)
           else min (nat count) (length (contacts self))) (contacts self)"
  by (auto simp: py_slice_to_def min_def)

lemma get_contacts_unfold:
  "get_contacts count x self =
     (let slice = take (if count \<le> 0 then length (contacts self)
                        else min (nat count) (length (contacts self))) (contacts self)
      in (case x of
            None \<Rightarrow> (Inr slice, self)
          | Some e \<Rightarrow>
              if py_contains e slice then
                (case py_remove e slice of
                   Inl err \<Rightarrow> (Inl err, self)
                 | Inr cl \<Rightarrow> (Inr cl, self))
              else (Inr slice, self)))"
  unfolding get_contacts_def Let_def get_contacts_slice ..

text \<open>
  C5. \<open>get_contacts\<close> never raises and never changes the bucket. Let \<open>slice\<close> be the
  first \<open>min count size\<close> stored contacts in stored order, a count of zero or less
  standing for the size. Without an excluded contact, or with one whose ID matches nothing
  in \<open>slice\<close> (also when it matches a stored contact beyond the slice), the result is
  \<open>slice\<close>. With one whose ID matches in \<open>slice\<close>, the result is \<open>slice\<close> without the
  first element of that ID, so one element shorter and with nothing pulled in from beyond
  the slice; in a bucket with unique IDs that is \<open>slice\<close> without the elements of that ID.
\<close>

theorem get_contacts_prefix:
  "let slice = take (if count \<le> 0 then length (contacts self)
                     else min (nat count) (length (contacts self))) (contacts self)
   in snd (get_contacts count x self) = self
    \<and> (\<exists>r. fst (get_contacts count x self) = Inr r)
    \<and> length slice = (if count \<le> 0 then length (contacts self)
                       else min (nat count) (length (contacts self)))
    \<and> (x = None \<longrightarrow> fst (get_contacts count x self) = Inr slice)
    \<and> (\<forall>e. x = Some e \<and> ident e \<notin> ident ` set slice \<longrightarrow>
          fst (get_contacts count x self) = Inr slice)
    \<and> (\<forall>e. x = Some e \<and> ident e \<in> ident ` set slice \<longrightarrow>
          (\<exists>pre y post. slice = pre @ y # post \<and> ident y = ident e
              \<and> ident e \<notin> ident ` set pre
              \<and> fst (get_contacts count x self) = Inr (pre @ post))
          \<and> (\<exists>r. fst (get_contacts count x self) = Inr r \<and> length r + 1 = length slice)
          \<and> (unique_ids (contacts self) \<longrightarrow>
                fst (get_contacts count x self)
                  = Inr (filter (\<lambda>y. ident y \<noteq> ident e) slice)))"
proof -
  define slice where "slice = take (if count \<le> 0 then length (contacts self)
                     else min (nat count) (length (contacts self))) (contacts self)"
  have unf: "get_contacts count x self =
      (case x of
         None \<Rightarrow> (Inr slice, self)
       | Some e \<Rightarrow>
           if py_contains e slice then
             (case py_remove e slice of
                Inl err \<Rightarrow> (Inl err, self)
              | Inr cl \<Rightarrow> (Inr cl, self))
           else (Inr slice, self))"
    unfolding slice_def get_contacts_unfold Let_def ..
  have same: "snd (get_contacts count x self) = self"
    by (rule get_contacts_snd)
  have len: "length slice = (if count \<le> 0 then length (contacts self)
                       else min (nat count) (length (contacts self)))"
    by (simp add: slice_def)
  have none: "fst (get_contacts count x self) = Inr slice" if "x = None"
    unfolding unf using that by simp
  have outside: "fst (get_contacts count x self) = Inr slice"
    if "x = Some e \<and> ident e \<notin> ident ` set slice" for e
    unfolding unf using that by (simp add: py_contains_iff)
  have inside: "(\<exists>pre y post. slice = pre @ y # post \<and> ident y = ident e
              \<and> ident e \<notin> ident ` set pre
              \<and> fst (get_contacts count x self) = Inr (pre @ post))
          \<and> (\<exists>r. fst (get_contacts count x self) = Inr r \<and> length r + 1 = length slice)
          \<and> (unique_ids (contacts self) \<longrightarrow>
                fst (get_contacts count x self)
                  = Inr (filter (\<lambda>y. ident y \<noteq> ident e) slice))"
    if h: "x = Some e \<and> ident e \<in> ident ` set slice" for e
  proof -
    from h have mem: "ident e \<in> ident ` set slice" by simp
    from py_remove_present [OF mem] obtain ys where ys: "py_remove e slice = Inr ys"
      by blast
    have res: "fst (get_contacts count x self) = Inr ys"
      unfolding unf using h ys by (simp add: py_contains_iff)
    from py_remove_Inr_split [OF ys] res
    have a: "\<exists>pre y post. slice = pre @ y # post \<and> ident y = ident e
              \<and> ident e \<notin> ident ` set pre
              \<and> fst (get_contacts count x self) = Inr (pre @ post)"
      by auto
    from py_remove_Inr_length [OF ys] res
    have b: "\<exists>r. fst (get_contacts count x self) = Inr r \<and> length r + 1 = length slice"
      by simp
    have c: "fst (get_contacts count x self) = Inr (filter (\<lambda>y. ident y \<noteq> ident e) slice)"
      if "unique_ids (contacts self)"
    proof -
      from that have "distinct (map ident slice)"
        by (simp add: slice_def unique_ids_def distinct_take take_map [symmetric])
      from py_remove_Inr_distinct [OF ys this] res show ?thesis by simp
    qed
    from a b c show ?thesis by blast
  qed
  have some_result: "\<exists>r. fst (get_contacts count x self) = Inr r"
  proof (cases x)
    case None
    with none show ?thesis by blast
  next
    case (Some e)
    show ?thesis
    proof (cases "ident e \<in> ident ` set slice")
      case True
      with Some inside [of e] show ?thesis by blast
    next
      case False
      with Some outside [of e] show ?thesis by blast
    qed
  qed
  from same some_result len none outside inside
  show ?thesis unfolding Let_def slice_def [symmetric] by blast
qed

theorem get_contacts_prefix_witness:
  "get_contacts 1 (Some (Ident ''A'')) bucket_AB = (Inr [], bucket_AB)
   \<and> get_contacts 1 (Some (Ident ''B'')) bucket_AB = (Inr [contact_A], bucket_AB)
   \<and> get_contacts 1 None bucket_AB = (Inr [contact_A], bucket_AB)
   \<and> get_contacts 0 None bucket_AB = (Inr [contact_A, contact_B], bucket_AB)
   \<and> get_contacts 7 None bucket_AB = (Inr [contact_A, contact_B], bucket_AB)
   \<and> unique_ids (contacts bucket_AB)"
proof -
  have uniq: "unique_ids (contacts bucket_AB)"
    by (simp add: bucket_AB_def unique_ids_def contact_A_def contact_B_def)
  have cs: "contacts bucket_AB = [contact_A, contact_B]"
    by (simp add: bucket_AB_def)
  have ids: "ident contact_A = ''A''" "ident contact_B = ''B''"
    by (simp_all add: contact_A_def contact_B_def)
  have inA: "fst (get_contacts 1 (Some (Ident ''A'')) bucket_AB) = Inr []"
    using get_contacts_prefix [of 1 bucket_AB "Some (Ident ''A'')"] uniq
    by (simp add: cs ids)
  have outB: "fst (get_contacts 1 (Some (Ident ''B'')) bucket_AB) = Inr [contact_A]"
    using get_contacts_prefix [of 1 bucket_AB "Some (Ident ''B'')"]
    by (simp add: cs ids)
  have none1: "fst (get_contacts 1 None bucket_AB) = Inr [contact_A]"
    using get_contacts_prefix [of 1 bucket_AB None]
    by (simp add: cs)
  have none0: "fst (get_contacts 0 None bucket_AB) = Inr [contact_A, contact_B]"
    using get_contacts_prefix [of 0 bucket_AB None]
    by (simp add: cs)
  have none7: "fst (get_contacts 7 None bucket_AB) = Inr [contact_A, contact_B]"
    using get_contacts_prefix [of 7 bucket_AB None]
    by (simp add: cs)
  have same: "snd (get_contacts n x bucket_AB) = bucket_AB" for n x
    using get_contacts_prefix [of n bucket_AB x] by (simp add: Let_def)
  from inA outB none1 none0 none7 same uniq show ?thesis
    by (simp add: prod_eq_iff)
qed

end
